theory Spec2Isabelle
  imports Main "HOL-Library.Word"
begin

section \<open>The strip of neopixel-utils.js\<close>

text \<open>
  The module exports one function, \<open>Strip(pixelCount)\<close>, which returns an object with the
  fields \<open>buffer\<close> (a Node.js \<open>Buffer\<close> of \<open>pixelCount*3\<close> bytes) and \<open>pixelCount\<close>, and
  the methods \<open>setPixelColor\<close>, \<open>getPixelColor\<close>, \<open>off\<close> and \<open>on\<close>. The methods mutate
  \<open>this.buffer\<close> in place and may throw; here every method takes the object and returns
  the outcome (an error or a value) together with the object as the call leaves it, so
  that what a throwing call has already written stays visible.

  Numbers are modelled as integers: indices and channel values are \<open>int\<close>, the pixel
  count is a \<open>nat\<close> (the constructor is only considered on non-negative integers), and
  allocation of the buffer always succeeds.
\<close>

subsection \<open>Errors and colors\<close>

text \<open>
  The exceptions the code can raise. None of them is raised by the module itself: they
  come from the operations it calls.
  \<^item> \<open>IndexOutOfRange\<close>: the \<open>RangeError\<close> of \<open>Buffer.writeUInt8\<close> for an offset outside
    the buffer;
  \<^item> \<open>InvalidChannelValue\<close>: the error of \<open>Buffer.writeUInt8\<close> for a value outside
    \<open>[0, 255]\<close>;
  \<^item> \<open>UnresolvableColor\<close>: the \<open>TypeError\<close> of reading \<open>colorArray[0]\<close> when
    \<open>colorString.get.rgb\<close> has returned \<open>null\<close>;
  \<^item> \<open>NotAFunction\<close>: the \<open>TypeError\<close> of calling a property that is \<open>undefined\<close>.
\<close>

datatype error = IndexOutOfRange | InvalidChannelValue | UnresolvableColor | NotAFunction

text \<open>
  A color argument is an array of numbers (\<open>Array.isArray(color)\<close>) or a string handed
  to \<open>colorString.get.rgb\<close>.
\<close>

datatype color = ColorArray "int list" | ColorString string

type_synonym byte = "8 word"

text \<open>
  \<open>colorString.get.rgb\<close> belongs to the package color-string, not to this module: it is a
  parameter \<open>get_rgb\<close> of the model, returning \<open>None\<close> for JavaScript's \<open>null\<close>.
\<close>

type_synonym resolver = "string \<Rightarrow> int list option"

subsection \<open>The operations of Buffer the module calls\<close>

text \<open>
  \<open>a[k]\<close> on a JavaScript array: \<open>None\<close> stands for \<open>undefined\<close>, the value of an index
  past the end.
\<close>

definition array_get :: "int list \<Rightarrow> nat \<Rightarrow> int option" where
  "array_get a k = (if k < length a then Some (a ! k) else None)"

text \<open>
  \<open>new Buffer(n)\<close> allocates \<open>n\<close> bytes without clearing them; \<open>mem\<close> gives the
  byte found at each position.
\<close>

definition new_Buffer :: "(nat \<Rightarrow> byte) \<Rightarrow> nat \<Rightarrow> byte list" where
  "new_Buffer mem n = map mem [0..<n]"

text \<open>
  \<open>buf.writeUInt8(value, offset)\<close> without \<open>noAssert\<close>: the value is checked first
  (\<open>undefined\<close> becomes \<open>NaN\<close>, which passes both comparisons and is stored as 0), then
  the offset; only then is the byte stored. An integer offset outside \<open>[0, buf.length)\<close>
  raises a \<open>RangeError\<close>, as Node.js 10 and later check it; the versions before reduce
  the offset modulo \<open>2^32\<close> first, which differs only for offsets of magnitude \<open>2^32\<close>
  and beyond.
\<close>

definition out_of_bounds :: "int option \<Rightarrow> bool" where
  "out_of_bounds val = (case val of None \<Rightarrow> False | Some v \<Rightarrow> v > 255 \<or> v < 0)"

definition ToUint8 :: "int option \<Rightarrow> byte" where
  "ToUint8 val = (case val of None \<Rightarrow> 0 | Some v \<Rightarrow> word_of_int v)"

definition writeUInt8 :: "byte list \<Rightarrow> int option \<Rightarrow> int \<Rightarrow> error + byte list" where
  "writeUInt8 buf val offset =
     (if out_of_bounds val then Inl InvalidChannelValue
      else if offset < 0 \<or> int (length buf) \<le> offset then Inl IndexOutOfRange
      else Inr (buf[nat offset := ToUint8 val]))"

text \<open>
  \<open>buf.read(offset)\<close>: a \<open>Buffer\<close> has \<open>readUInt8\<close>, \<open>readInt8\<close> and so on, but no member
  named \<open>read\<close>; the property is \<open>undefined\<close> and calling it throws a \<open>TypeError\<close>.
\<close>

definition Buffer_read :: "byte list \<Rightarrow> int \<Rightarrow> error + int" where
  "Buffer_read buf offset = Inl NotAFunction"

subsection \<open>The strip object\<close>

record strip =
  buffer :: "byte list"
  pixelCount :: nat

text \<open>The loop at the end of \<open>Strip\<close>: \<open>for (let i=0; i<pixelCount*3; i++) obj.buffer[i] = 0\<close>.\<close>

function zero_loop :: "byte list \<Rightarrow> nat \<Rightarrow> nat \<Rightarrow> byte list" where
  "zero_loop buf i n = (if i < n then zero_loop (buf[i := 0]) (Suc i) n else buf)"
  by pat_completeness auto
termination
  by (relation "measure (\<lambda>(buf, i, n). n - i)") auto

definition Strip :: "(nat \<Rightarrow> byte) \<Rightarrow> nat \<Rightarrow> strip" where
  "Strip mem n =
     \<lparr>buffer = zero_loop (new_Buffer mem (n * 3)) 0 (n * 3), pixelCount = n\<rparr>"

text \<open>The array \<open>setPixelColor\<close> binds to its local \<open>colorArray\<close>.\<close>

definition colorArray :: "resolver \<Rightarrow> color \<Rightarrow> int list option" where
  "colorArray get_rgb c =
     (case c of ColorString str \<Rightarrow> get_rgb str | ColorArray a \<Rightarrow> Some a)"

text \<open>
  \<open>setPixelColor(index, color)\<close>: three calls of \<open>writeUInt8\<close> in sequence; the first one
  that throws ends the call, and the bytes stored before it stay stored.
\<close>

definition setPixelColor :: "resolver \<Rightarrow> strip \<Rightarrow> int \<Rightarrow> color \<Rightarrow> (error + unit) \<times> strip" where
  "setPixelColor get_rgb s index c =
     (case colorArray get_rgb c of
        None \<Rightarrow> (Inl UnresolvableColor, s)
      | Some a \<Rightarrow>
         (case writeUInt8 (buffer s) (array_get a 0) (index * 3) of
            Inl e \<Rightarrow> (Inl e, s)
          | Inr b0 \<Rightarrow>
             (case writeUInt8 b0 (array_get a 1) (index * 3 + 1) of
                Inl e \<Rightarrow> (Inl e, s\<lparr>buffer := b0\<rparr>)
              | Inr b1 \<Rightarrow>
                 (case writeUInt8 b1 (array_get a 2) (index * 3 + 2) of
                    Inl e \<Rightarrow> (Inl e, s\<lparr>buffer := b1\<rparr>)
                  | Inr b2 \<Rightarrow> (Inr (), s\<lparr>buffer := b2\<rparr>)))))"

text \<open>\<open>getPixelColor(index)\<close>: an array of three \<open>this.buffer.read(...)\<close>.\<close>

definition getPixelColor :: "strip \<Rightarrow> int \<Rightarrow> (error + int list) \<times> strip" where
  "getPixelColor s index =
     (case Buffer_read (buffer s) (index * 3) of
        Inl e \<Rightarrow> (Inl e, s)
      | Inr r \<Rightarrow>
         (case Buffer_read (buffer s) (index * 3 + 1) of
            Inl e \<Rightarrow> (Inl e, s)
          | Inr g \<Rightarrow>
             (case Buffer_read (buffer s) (index * 3 + 2) of
                Inl e \<Rightarrow> (Inl e, s)
              | Inr b \<Rightarrow> (Inr [r, g, b], s))))"

text \<open>
  The loops of \<open>off\<close> and \<open>on\<close>: \<open>for (let i=0; i<this.pixelCount; i++)
  this.setPixelColor(i, color)\<close>. An exception of \<open>setPixelColor\<close> leaves the loop.
\<close>

function off_loop :: "resolver \<Rightarrow> strip \<Rightarrow> color \<Rightarrow> nat \<Rightarrow> (error + unit) \<times> strip" where
  "off_loop get_rgb s c i =
     (if i < pixelCount s then
        (case fst (setPixelColor get_rgb s (int i) c) of
           Inl e \<Rightarrow> (Inl e, snd (setPixelColor get_rgb s (int i) c))
         | Inr u \<Rightarrow> off_loop get_rgb (snd (setPixelColor get_rgb s (int i) c)) c (Suc i))
      else (Inr (), s))"
  by pat_completeness auto
termination
  by (relation "measure (\<lambda>(get_rgb, s, c, i). pixelCount s - i)")
     (auto simp: setPixelColor_def split: option.splits sum.splits)

definition off :: "resolver \<Rightarrow> strip \<Rightarrow> (error + unit) \<times> strip" where
  "off get_rgb s = off_loop get_rgb s (ColorArray [0, 0, 0]) 0"

function on_loop :: "resolver \<Rightarrow> strip \<Rightarrow> color \<Rightarrow> nat \<Rightarrow> (error + unit) \<times> strip" where
  "on_loop get_rgb s c i =
     (if i < pixelCount s then
        (case fst (setPixelColor get_rgb s (int i) c) of
           Inl e \<Rightarrow> (Inl e, snd (setPixelColor get_rgb s (int i) c))
         | Inr u \<Rightarrow> on_loop get_rgb (snd (setPixelColor get_rgb s (int i) c)) c (Suc i))
      else (Inr (), s))"
  by pat_completeness auto
termination
  by (relation "measure (\<lambda>(get_rgb, s, c, i). pixelCount s - i)")
     (auto simp: setPixelColor_def split: option.splits sum.splits)

definition on :: "resolver \<Rightarrow> strip \<Rightarrow> color \<Rightarrow> (error + unit) \<times> strip" where
  "on get_rgb s c = on_loop get_rgb s c 0"

text \<open>
  A caller's view of the object: any sequence of method calls, each applied to the object
  the previous call left behind, whether that call returned or threw.
\<close>

datatype call = SetPixelColor int color | GetPixelColor int | Off | On color

fun step :: "resolver \<Rightarrow> strip \<Rightarrow> call \<Rightarrow> strip" where
  "step get_rgb s (SetPixelColor index c) = snd (setPixelColor get_rgb s index c)"
| "step get_rgb s (GetPixelColor index) = snd (getPixelColor s index)"
| "step get_rgb s Off = snd (off get_rgb s)"
| "step get_rgb s (On c) = snd (on get_rgb s c)"

definition run :: "resolver \<Rightarrow> strip \<Rightarrow> call list \<Rightarrow> strip" where
  "run get_rgb s calls = foldl (step get_rgb) s calls"

text \<open>The layout invariant of the data model.\<close>

definition strip_inv :: "strip \<Rightarrow> bool" where
  "strip_inv s \<longleftrightarrow> length (buffer s) = pixelCount s * 3"

text \<open>
  The specification's wording of \<open>off\<close>, to compare the loop with: \<open>setPixelColor(i,
  (0,0,0))\<close> for every \<open>i\<close> in \<open>[0, pixelCount)\<close>, in index order.
\<close>

definition off_spec :: "resolver \<Rightarrow> strip \<Rightarrow> strip" where
  "off_spec get_rgb s =
     foldl (\<lambda>st i. snd (setPixelColor get_rgb st (int i) (ColorArray [0, 0, 0]))) s
       [0..<pixelCount s]"

text \<open>
  A resolver to run the examples with: it knows the single name \<open>blue\<close>, and answers as
  color-string does, with the alpha channel in fourth place.
\<close>

definition example_rgb :: resolver where
  "example_rgb str = (if str = ''blue'' then Some [0, 0, 255, 1] else None)"

section \<open>Properties\<close>

declare zero_loop.simps [simp del] off_loop.simps [simp del] on_loop.simps [simp del]

subsection \<open>Auxiliary facts\<close>

lemma zero_loop_length: "length (zero_loop buf i n) = length buf"
proof (induction buf i n rule: zero_loop.induct)
  case (1 buf i n)
  then show ?case by (subst zero_loop.simps) simp
qed

lemma zero_loop_eq:
  "n \<le> length buf \<Longrightarrow> i \<le> n \<Longrightarrow> zero_loop buf i n = take i buf @ replicate (n - i) 0 @ drop n buf"
proof (induction buf i n rule: zero_loop.induct)
  case (1 buf i n)
  show ?case
  proof (cases "i < n")
    case True
    have "zero_loop buf i n = zero_loop (buf[i := 0]) (Suc i) n"
      using True by (subst zero_loop.simps) simp
    also have "\<dots> = take (Suc i) (buf[i := 0]) @ replicate (n - Suc i) 0 @ drop n (buf[i := 0])"
      using True "1.prems" by (intro "1.IH") simp_all
    also have "take (Suc i) (buf[i := 0]) = take i buf @ [0]"
      using True "1.prems" by (simp add: take_Suc_conv_app_nth)
    also have "drop n (buf[i := 0]) = drop n buf"
      using True by simp
    also have "(take i buf @ [0]) @ replicate (n - Suc i) 0 @ drop n buf
        = take i buf @ replicate (n - i) 0 @ drop n buf"
      using True by (simp add: Suc_diff_Suc replicate_append_same flip: replicate_Suc)
    finally show ?thesis .
  next
    case False
    with "1.prems" have "i = n" by simp
    then show ?thesis by (subst zero_loop.simps) simp
  qed
qed

lemma Strip_buffer: "buffer (Strip mem n) = replicate (n * 3) 0"
  by (simp add: Strip_def zero_loop_eq new_Buffer_def)

lemma setPixelColor_pixelCount:
  "pixelCount (snd (setPixelColor get_rgb s index c)) = pixelCount s"
  by (simp add: setPixelColor_def split: option.splits sum.splits)

lemma writeUInt8_length: "writeUInt8 buf val offset = Inr b \<Longrightarrow> length b = length buf"
  by (auto simp: writeUInt8_def split: if_splits)

lemma setPixelColor_length:
  "length (buffer (snd (setPixelColor get_rgb s index c))) = length (buffer s)"
  by (auto simp: setPixelColor_def writeUInt8_def split: option.splits sum.splits if_splits)

lemma getPixelColor_state: "snd (getPixelColor s index) = s"
  by (simp add: getPixelColor_def split: sum.splits)

lemma writeUInt8_ok:
  "\<not> out_of_bounds val \<Longrightarrow> k < length buf \<Longrightarrow>
   writeUInt8 buf val (int k) = Inr (buf[k := ToUint8 val])"
  by (simp add: writeUInt8_def)

lemma setPixelColor_ok:
  assumes "strip_inv s" and "i < pixelCount s" and "colorArray get_rgb c = Some a"
    and "\<not> out_of_bounds (array_get a 0)" and "\<not> out_of_bounds (array_get a 1)"
    and "\<not> out_of_bounds (array_get a 2)"
  shows "setPixelColor get_rgb s (int i) c =
    (Inr (), s\<lparr>buffer := (buffer s)[i * 3 := ToUint8 (array_get a 0),
        i * 3 + 1 := ToUint8 (array_get a 1), i * 3 + 2 := ToUint8 (array_get a 2)]\<rparr>)"
proof -
  have len: "i * 3 + 2 < length (buffer s)"
    using assms(1,2) by (simp add: strip_inv_def)
  have n0: "nat (int i * 3) = i * 3" and n1: "nat (int i * 3 + 1) = i * 3 + 1"
    and n2: "nat (int i * 3 + 2) = i * 3 + 2" by (simp_all add: nat_add_distrib nat_mult_distrib)
  have "int i * 3 + 2 < int (length (buffer s))"
    using len by linarith
  then show ?thesis
    using assms(3-6) by (simp add: setPixelColor_def writeUInt8_def n0 n1 n2)
qed

lemma take_update3:
  "k + 3 \<le> length b \<Longrightarrow>
   take (k + 3) (b[k := x, k + 1 := y, k + 2 := z]) = take k b @ [x, y, z]"
  by (simp add: numeral_3_eq_3 take_Suc_conv_app_nth)

lemma on_loop_fill:
  assumes "\<not> out_of_bounds (array_get a 0)" and "\<not> out_of_bounds (array_get a 1)"
    and "\<not> out_of_bounds (array_get a 2)"
  shows "colorArray get_rgb c = Some a \<Longrightarrow> strip_inv s \<Longrightarrow> i \<le> pixelCount s \<Longrightarrow>
    on_loop get_rgb s c i =
      (Inr (), s\<lparr>buffer := take (i * 3) (buffer s) @
         concat (replicate (pixelCount s - i)
           [ToUint8 (array_get a 0), ToUint8 (array_get a 1), ToUint8 (array_get a 2)])\<rparr>)"
proof (induction get_rgb s c i rule: on_loop.induct)
  case (1 get_rgb s c i)
  let ?px = "[ToUint8 (array_get a 0), ToUint8 (array_get a 1), ToUint8 (array_get a 2)]"
  show ?case
  proof (cases "i < pixelCount s")
    case False
    with "1.prems" have "i = pixelCount s" by simp
    moreover have "length (buffer s) = pixelCount s * 3"
      using "1.prems" by (simp add: strip_inv_def)
    ultimately show ?thesis
      by (subst on_loop.simps) simp
  next
    case True
    define b' where "b' = (buffer s)[i * 3 := ToUint8 (array_get a 0),
        i * 3 + 1 := ToUint8 (array_get a 1), i * 3 + 2 := ToUint8 (array_get a 2)]"
    define s' where "s' = s\<lparr>buffer := b'\<rparr>"
    have set: "setPixelColor get_rgb s (int i) c = (Inr (), s')"
      unfolding s'_def b'_def using "1.prems"(2) True "1.prems"(1) assms by (rule setPixelColor_ok)
    have inv': "strip_inv s'" and pc: "pixelCount s' = pixelCount s"
      using "1.prems"(2) by (simp_all add: s'_def b'_def strip_inv_def)
    have len: "i * 3 + 3 \<le> length (buffer s)"
      using "1.prems"(2) True by (simp add: strip_inv_def)
    have "on_loop get_rgb s c i = on_loop get_rgb s' c (Suc i)"
      using True set by (subst on_loop.simps) simp
    also have "\<dots> = (Inr (), s'\<lparr>buffer := take (Suc i * 3) (buffer s') @
         concat (replicate (pixelCount s' - Suc i) ?px)\<rparr>)"
      using "1.IH" [of "()"] True set inv' pc "1.prems"(1) by simp
    also have "take (Suc i * 3) (buffer s') = take (i * 3) (buffer s) @ ?px"
      using take_update3 [OF len] by (simp add: s'_def b'_def add.commute)
    also have "(take (i * 3) (buffer s) @ ?px) @ concat (replicate (pixelCount s' - Suc i) ?px)
        = take (i * 3) (buffer s) @ concat (replicate (pixelCount s - i) ?px)"
    proof -
      have "pixelCount s - i = Suc (pixelCount s - Suc i)"
        using True by simp
      then show ?thesis by (simp add: pc)
    qed
    finally show ?thesis by (simp add: s'_def)
  qed
qed

lemma off_loop_on_loop: "off_loop get_rgb s c i = on_loop get_rgb s c i"
proof (induction get_rgb s c i rule: on_loop.induct)
  case (1 get_rgb s c i)
  show ?case
  proof (cases "i < pixelCount s")
    case False
    then show ?thesis by (subst off_loop.simps, subst on_loop.simps) simp
  next
    case True
    show ?thesis
    proof (cases "fst (setPixelColor get_rgb s (int i) c)")
      case (Inl e)
      then show ?thesis using True by (subst off_loop.simps, subst on_loop.simps) simp
    next
      case (Inr u)
      then show ?thesis
        using True "1.IH" [of u] by (subst off_loop.simps, subst on_loop.simps) simp
    qed
  qed
qed

lemma on_loop_preserves:
  "length (buffer (snd (on_loop get_rgb s c i))) = length (buffer s) \<and>
   pixelCount (snd (on_loop get_rgb s c i)) = pixelCount s"
proof (induction get_rgb s c i rule: on_loop.induct)
  case (1 get_rgb s c i)
  show ?case
  proof (cases "i < pixelCount s")
    case False
    then show ?thesis by (subst (1 2) on_loop.simps) simp
  next
    case True
    show ?thesis
    proof (cases "fst (setPixelColor get_rgb s (int i) c)")
      case (Inl e)
      then show ?thesis
        using True by (subst (1 2) on_loop.simps) (simp add: setPixelColor_length setPixelColor_pixelCount)
    next
      case (Inr u)
      then show ?thesis
        using True "1.IH" [of u]
        by (subst (1 2) on_loop.simps) (simp add: setPixelColor_length setPixelColor_pixelCount)
    qed
  qed
qed

lemma step_preserves:
  "length (buffer (step get_rgb s call)) = length (buffer s) \<and>
   pixelCount (step get_rgb s call) = pixelCount s"
  by (cases call)
    (simp_all add: setPixelColor_length setPixelColor_pixelCount getPixelColor_state
      on_def off_def off_loop_on_loop on_loop_preserves)

lemma run_preserves:
  "length (buffer (run get_rgb s calls)) = length (buffer s) \<and>
   pixelCount (run get_rgb s calls) = pixelCount s"
  unfolding run_def by (induction calls arbitrary: s) (simp_all add: step_preserves)

lemma array_get_Cons3:
  "array_get (r # g # b # rest) 0 = Some r"
  "array_get (r # g # b # rest) 1 = Some g"
  "array_get (r # g # b # rest) 2 = Some b"
  "array_get (r # g # b # rest) (Suc 0) = Some g"
  by (simp_all add: array_get_def)

lemma on_loop_foldl:
  assumes "\<not> out_of_bounds (array_get a 0)" and "\<not> out_of_bounds (array_get a 1)"
    and "\<not> out_of_bounds (array_get a 2)"
  shows "colorArray get_rgb c = Some a \<Longrightarrow> strip_inv s \<Longrightarrow> i \<le> pixelCount s \<Longrightarrow>
    snd (on_loop get_rgb s c i) =
      foldl (\<lambda>st k. snd (setPixelColor get_rgb st (int k) c)) s [i..<pixelCount s]"
proof (induction get_rgb s c i rule: on_loop.induct)
  case (1 get_rgb s c i)
  show ?case
  proof (cases "i < pixelCount s")
    case False
    then show ?thesis by (subst on_loop.simps) simp
  next
    case True
    obtain s' where set: "setPixelColor get_rgb s (int i) c = (Inr (), s')"
      using setPixelColor_ok [OF "1.prems"(2) True "1.prems"(1) assms] by blast
    have pc: "pixelCount s' = pixelCount s"
      using setPixelColor_pixelCount [of get_rgb s "int i" c] set by simp
    have "length (buffer s') = length (buffer s)"
      using setPixelColor_length [of get_rgb s "int i" c] set by simp
    then have inv': "strip_inv s'"
      using "1.prems"(2) pc by (simp add: strip_inv_def)
    have "snd (on_loop get_rgb s c i) = snd (on_loop get_rgb s' c (Suc i))"
      using True set by (subst on_loop.simps) simp
    also have "\<dots> = foldl (\<lambda>st k. snd (setPixelColor get_rgb st (int k) c)) s' [Suc i..<pixelCount s']"
      using "1.IH" [of "()"] True set inv' pc "1.prems"(1) by simp
    also have "\<dots> = foldl (\<lambda>st k. snd (setPixelColor get_rgb st (int k) c)) s [i..<pixelCount s]"
      using True set by (simp add: pc upt_rec [of i])
    finally show ?thesis .
  qed
qed

lemma concat_replicate_zero3: "concat (replicate n [0, 0, 0 :: byte]) = replicate (n * 3) 0"
  by (induction n) (simp_all add: replicate_add numeral_3_eq_3)

subsection \<open>Construction\<close>

text \<open>
  C3. For every pixel count \<open>n \<ge> 0\<close>, whatever the allocated memory held, the buffer of a
  freshly constructed \<open>Strip(n)\<close> has length \<open>n * 3\<close> and every byte of it is 0; for
  \<open>n = 0\<close> the buffer is empty.
\<close>

theorem Strip_fresh:
  "length (buffer (Strip mem n)) = n * 3 \<and> buffer (Strip mem n) = replicate (n * 3) 0 \<and>
   buffer (Strip mem 0) = [] \<and> pixelCount (Strip mem n) = n"
  by (simp add: Strip_buffer) (simp add: Strip_def)

subsection \<open>The layout invariant\<close>

text \<open>
  C4. After construction and after any sequence of calls of \<open>setPixelColor\<close>,
  \<open>getPixelColor\<close>, \<open>off\<close> and \<open>on\<close>, returning or throwing, the buffer of a strip built
  with \<open>Strip(n)\<close> has length \<open>n * 3\<close> and its \<open>pixelCount\<close> is still \<open>n\<close>.
\<close>

theorem layout_invariant:
  "length (buffer (run get_rgb (Strip mem n) calls)) = n * 3 \<and>
   pixelCount (run get_rgb (Strip mem n) calls) = n \<and>
   strip_inv (run get_rgb (Strip mem n) calls)"
  by (simp add: run_preserves strip_inv_def Strip_buffer) (simp add: Strip_def)

subsection \<open>Reading a pixel\<close>

text \<open>
  C10. \<open>getPixelColor(index)\<close> leaves the strip as it found it, buffer and pixel count,
  whatever the index and whatever the outcome of the call.
\<close>

theorem getPixelColor_pure: "snd (getPixelColor s index) = s"
  by (simp add: getPixelColor_def Buffer_read_def)

subsection \<open>Writing a pixel\<close>

text \<open>
  C9. A call of \<open>setPixelColor(index, color)\<close> that returns leaves \<open>pixelCount\<close> and the
  length of the buffer as they were, and every byte of the buffer at an offset other than
  \<open>index*3\<close>, \<open>index*3+1\<close> and \<open>index*3+2\<close> keeps its value.
\<close>

theorem setPixelColor_frame:
  assumes "fst (setPixelColor get_rgb s index c) = Inr ()"
  shows "pixelCount (snd (setPixelColor get_rgb s index c)) = pixelCount s \<and>
    length (buffer (snd (setPixelColor get_rgb s index c))) = length (buffer s) \<and>
    (\<forall>k. int k \<noteq> index * 3 \<and> int k \<noteq> index * 3 + 1 \<and> int k \<noteq> index * 3 + 2 \<longrightarrow>
       buffer (snd (setPixelColor get_rgb s index c)) ! k = buffer s ! k)"
proof (intro conjI allI impI)
  fix k
  assume k: "int k \<noteq> index * 3 \<and> int k \<noteq> index * 3 + 1 \<and> int k \<noteq> index * 3 + 2"
  from assms obtain a where a: "colorArray get_rgb c = Some a"
    by (auto simp: setPixelColor_def split: option.splits)
  from assms a have off: "0 \<le> index * 3"
    by (auto simp: setPixelColor_def writeUInt8_def split: sum.splits if_splits)
  then have "nat (index * 3) \<noteq> k" "nat (index * 3 + 1) \<noteq> k" "nat (index * 3 + 2) \<noteq> k"
    using k by linarith+
  then show "buffer (snd (setPixelColor get_rgb s index c)) ! k = buffer s ! k"
    using assms a
    by (auto simp: setPixelColor_def writeUInt8_def split: sum.splits if_splits)
qed (simp_all add: setPixelColor_pixelCount setPixelColor_length)

theorem setPixelColor_frame_witness:
  "fst (setPixelColor example_rgb \<lparr>buffer = [1, 2, 3, 4, 5, 6], pixelCount = 2\<rparr> 1
     (ColorString ''blue'')) = Inr () \<and>
   buffer (snd (setPixelColor example_rgb \<lparr>buffer = [1, 2, 3, 4, 5, 6], pixelCount = 2\<rparr> 1
     (ColorString ''blue''))) ! 2 = 3 \<and>
   pixelCount (snd (setPixelColor example_rgb \<lparr>buffer = [1, 2, 3, 4, 5, 6], pixelCount = 2\<rparr> 1
     (ColorString ''blue''))) = 2"
proof -
  let ?s = "\<lparr>buffer = [1, 2, 3, 4, 5, 6], pixelCount = 2\<rparr>"
  have ok: "fst (setPixelColor example_rgb ?s 1 (ColorString ''blue'')) = Inr ()"
    by (simp add: setPixelColor_def colorArray_def example_rgb_def writeUInt8_def array_get_def
        out_of_bounds_def)
  from setPixelColor_frame [OF ok]
  have "buffer (snd (setPixelColor example_rgb ?s 1 (ColorString ''blue''))) ! 2 = buffer ?s ! 2"
    and "pixelCount (snd (setPixelColor example_rgb ?s 1 (ColorString ''blue''))) = pixelCount ?s"
    by simp_all
  with ok show ?thesis by simp
qed

text \<open>
  C8. At a valid index, \<open>setPixelColor\<close> with an array \<open>[r, g, b]\<close> of integers of which
  one lies outside \<open>[0, 255]\<close> always fails, with the error \<open>writeUInt8\<close> raises for such a
  value (\<open>InvalidChannelValue\<close>): of the two policies the code follows the rejecting one,
  for every such input. (The channels before the rejected one have been stored by then.)
\<close>

theorem setPixelColor_rejects_channel:
  assumes "strip_inv s" and "0 \<le> index" and "index < int (pixelCount s)"
    and "r < 0 \<or> 255 < r \<or> g < 0 \<or> 255 < g \<or> b < 0 \<or> 255 < b"
  shows "fst (setPixelColor get_rgb s index (ColorArray [r, g, b])) = Inl InvalidChannelValue"
proof -
  have "index * 3 + 2 < int (length (buffer s))"
    using assms(1,3) by (simp add: strip_inv_def)
  then show ?thesis
    using assms(2,4)
    by (auto simp: setPixelColor_def colorArray_def writeUInt8_def array_get_def out_of_bounds_def)
qed

theorem setPixelColor_rejects_channel_witness:
  "strip_inv \<lparr>buffer = [1, 2, 3, 4, 5, 6], pixelCount = 2\<rparr> \<and>
   fst (setPixelColor example_rgb \<lparr>buffer = [1, 2, 3, 4, 5, 6], pixelCount = 2\<rparr> 1
     (ColorArray [7, 256, 9])) = Inl InvalidChannelValue"
  using setPixelColor_rejects_channel
    [of "\<lparr>buffer = [1, 2, 3, 4, 5, 6], pixelCount = 2\<rparr>" 1 7 256 9 example_rgb]
  by (simp add: strip_inv_def)

text \<open>
  C2, as the code has it. The strip has no bounds check of its own; the error of a call
  with \<open>index < 0\<close> or \<open>index \<ge> pixelCount\<close> is the one its first failing step raises.
  On a strip whose buffer has \<open>pixelCount * 3\<close> bytes such a call of \<open>setPixelColor\<close> always
  fails and leaves the strip unchanged: with \<open>UnresolvableColor\<close> when the color does not
  resolve, with \<open>InvalidChannelValue\<close> when the first channel is outside \<open>[0, 255]\<close>, and
  with \<open>IndexOutOfRange\<close> (the range error of the first \<open>writeUInt8\<close>) otherwise.
  \<open>getPixelColor\<close> leaves the strip unchanged as well.
\<close>

theorem setPixelColor_index_out_of_range:
  assumes "strip_inv s" and "index < 0 \<or> int (pixelCount s) \<le> index"
  shows "snd (setPixelColor get_rgb s index c) = s \<and>
    fst (setPixelColor get_rgb s index c) =
      (case colorArray get_rgb c of
         None \<Rightarrow> Inl UnresolvableColor
       | Some a \<Rightarrow>
           if out_of_bounds (array_get a 0) then Inl InvalidChannelValue
           else Inl IndexOutOfRange) \<and>
    snd (getPixelColor s index) = s"
proof -
  have "index * 3 < 0 \<or> int (length (buffer s)) \<le> index * 3"
    using assms by (auto simp: strip_inv_def)
  then show ?thesis
    by (auto simp: setPixelColor_def writeUInt8_def getPixelColor_state split: option.splits)
qed

theorem setPixelColor_index_out_of_range_witness:
  "strip_inv (Strip (\<lambda>_. 0) 2) \<and>
   setPixelColor example_rgb (Strip (\<lambda>_. 0) 2) 2 (ColorArray [1, 2, 3]) =
     (Inl IndexOutOfRange, Strip (\<lambda>_. 0) 2) \<and>
   setPixelColor example_rgb (Strip (\<lambda>_. 0) 2) (- 1) (ColorString ''blue'') =
     (Inl IndexOutOfRange, Strip (\<lambda>_. 0) 2)"
proof -
  have inv: "strip_inv (Strip (\<lambda>_. 0) 2)"
    by (simp add: strip_inv_def Strip_buffer) (simp add: Strip_def)
  have p: "pixelCount (Strip (\<lambda>_. 0) 2) = 2"
    by (simp add: Strip_def)
  show ?thesis
    using inv setPixelColor_index_out_of_range [OF inv, of 2 example_rgb "ColorArray [1, 2, 3]"]
      setPixelColor_index_out_of_range [OF inv, of "- 1" example_rgb "ColorString ''blue''"]
    by (simp add: p colorArray_def example_rgb_def array_get_def out_of_bounds_def prod_eq_iff)
qed

text \<open>
  C2 as stated fails: on \<open>Strip(1)\<close>, \<open>setPixelColor(1, "not-a-color")\<close> fails with the
  error of the unresolved color and \<open>setPixelColor(1, [256, 0, 0])\<close> with the error of the
  channel value, neither with \<open>IndexOutOfRange\<close>.
\<close>

theorem setPixelColor_index_error_counterexample:
  "fst (setPixelColor example_rgb (Strip (\<lambda>_. 0) 1) 1 (ColorString ''not-a-color'')) =
     Inl UnresolvableColor \<and>
   fst (setPixelColor example_rgb (Strip (\<lambda>_. 0) 1) 1 (ColorString ''not-a-color'')) \<noteq>
     Inl IndexOutOfRange \<and>
   fst (setPixelColor example_rgb (Strip (\<lambda>_. 0) 1) 1 (ColorArray [256, 0, 0])) =
     Inl InvalidChannelValue \<and>
   fst (setPixelColor example_rgb (Strip (\<lambda>_. 0) 1) 1 (ColorArray [256, 0, 0])) \<noteq>
     Inl IndexOutOfRange"
  by (simp add: setPixelColor_def colorArray_def example_rgb_def writeUInt8_def array_get_def
      out_of_bounds_def)

subsection \<open>Writing, then reading\<close>

text \<open>
  The write half of the round trip: at a valid index, \<open>setPixelColor\<close> with channels in
  \<open>[0, 255]\<close> stores exactly these three values at the offsets of the pixel.
\<close>

lemma setPixelColor_stores:
  assumes "strip_inv s" and "i < pixelCount s"
    and "0 \<le> r" "r \<le> 255" "0 \<le> g" "g \<le> 255" "0 \<le> b" "b \<le> 255"
  shows "fst (setPixelColor get_rgb s (int i) (ColorArray [r, g, b])) = Inr () \<and>
    map uint (take 3 (drop (i * 3)
      (buffer (snd (setPixelColor get_rgb s (int i) (ColorArray [r, g, b])))))) = [r, g, b]"
proof -
  have len: "i * 3 + 3 \<le> length (buffer s)"
    using assms(1,2) by (simp add: strip_inv_def)
  have ca: "colorArray get_rgb (ColorArray [r, g, b]) = Some [r, g, b]"
    by (simp add: colorArray_def)
  have ok: "\<not> out_of_bounds (array_get [r, g, b] 0)" "\<not> out_of_bounds (array_get [r, g, b] 1)"
    "\<not> out_of_bounds (array_get [r, g, b] 2)"
    using assms(3-8) by (simp_all add: array_get_Cons3 out_of_bounds_def)
  have "take 3 (drop (i * 3) ((buffer s)[i * 3 := x, i * 3 + 1 := y, i * 3 + 2 := z])) = [x, y, z]"
    for x y z :: byte
    using len by (simp add: list_eq_iff_nth_eq nth_list_update less_Suc_eq numeral_3_eq_3)
  then show ?thesis
    using assms(3-8)
    by (simp add: setPixelColor_ok [OF assms(1,2) ca ok] array_get_Cons3 ToUint8_def
        uint_word_of_int del: list_update.simps)
qed

text \<open>
  C1. Reading the pixel back does not return the triple: \<open>getPixelColor\<close> calls
  \<open>this.buffer.read\<close>, which a \<open>Buffer\<close> does not have, so the call throws a \<open>TypeError\<close>
  whatever the strip holds. On \<open>Strip(1)\<close>, \<open>setPixelColor(0, [1, 2, 3])\<close> stores the bytes
  1, 2, 3 and \<open>getPixelColor(0)\<close> then fails.
\<close>

theorem getPixelColor_after_setPixelColor:
  "setPixelColor get_rgb (Strip mem 1) 0 (ColorArray [1, 2, 3]) =
     (Inr (), \<lparr>buffer = [1, 2, 3], pixelCount = 1\<rparr>) \<and>
   getPixelColor \<lparr>buffer = [1, 2, 3], pixelCount = 1\<rparr> 0 =
     (Inl NotAFunction, \<lparr>buffer = [1, 2, 3], pixelCount = 1\<rparr>)"
proof -
  have "Strip mem 1 = \<lparr>buffer = [0, 0, 0], pixelCount = 1\<rparr>"
    using Strip_buffer [of mem 1] by (simp add: Strip_def numeral_3_eq_3)
  then show ?thesis
    by (simp add: setPixelColor_def colorArray_def writeUInt8_def array_get_def out_of_bounds_def
        ToUint8_def getPixelColor_def Buffer_read_def)
qed

subsection \<open>Filling the strip\<close>

text \<open>
  C5. On a strip whose buffer has \<open>pixelCount * 3\<close> bytes, \<open>on(color)\<close> with a color that
  resolves to channels \<open>r\<close>, \<open>g\<close>, \<open>b\<close> in \<open>[0, 255]\<close> returns and leaves the buffer equal to
  \<open>pixelCount\<close> copies of the bytes \<open>r\<close>, \<open>g\<close>, \<open>b\<close>; and \<open>on([10,20,30])\<close> on a fresh strip
  of 3 pixels leaves the buffer \<open>[10,20,30,10,20,30,10,20,30]\<close>.
\<close>

theorem on_fills:
  "(strip_inv s \<and> colorArray get_rgb c = Some (r # g # b # rest) \<and>
    0 \<le> r \<and> r \<le> 255 \<and> 0 \<le> g \<and> g \<le> 255 \<and> 0 \<le> b \<and> b \<le> 255 \<longrightarrow>
    on get_rgb s c =
      (Inr (), s\<lparr>buffer := concat (replicate (pixelCount s)
         [word_of_int r, word_of_int g, word_of_int b])\<rparr>) \<and>
    map uint [word_of_int r :: byte, word_of_int g, word_of_int b] = [r, g, b]) \<and>
   buffer (snd (on get_rgb (Strip mem 3) (ColorArray [10, 20, 30]))) =
     [10, 20, 30, 10, 20, 30, 10, 20, 30]"
proof (intro conjI impI)
  assume h: "strip_inv s \<and> colorArray get_rgb c = Some (r # g # b # rest) \<and>
    0 \<le> r \<and> r \<le> 255 \<and> 0 \<le> g \<and> g \<le> 255 \<and> 0 \<le> b \<and> b \<le> 255"
  have "on_loop get_rgb s c 0 = (Inr (), s\<lparr>buffer := take (0 * 3) (buffer s) @
         concat (replicate (pixelCount s - 0)
           [ToUint8 (array_get (r # g # b # rest) 0), ToUint8 (array_get (r # g # b # rest) 1),
            ToUint8 (array_get (r # g # b # rest) 2)])\<rparr>)"
    using h by (intro on_loop_fill) (simp_all add: array_get_Cons3 out_of_bounds_def)
  then show "on get_rgb s c =
      (Inr (), s\<lparr>buffer := concat (replicate (pixelCount s)
         [word_of_int r, word_of_int g, word_of_int b])\<rparr>)"
    by (simp add: on_def array_get_Cons3 ToUint8_def)
  show "map uint [word_of_int r :: byte, word_of_int g, word_of_int b] = [r, g, b]"
    using h by (simp add: uint_word_of_int)
next
  have inv: "strip_inv (Strip mem 3)"
    by (simp add: strip_inv_def Strip_buffer) (simp add: Strip_def)
  have "on_loop get_rgb (Strip mem 3) (ColorArray [10, 20, 30]) 0 =
      (Inr (), (Strip mem 3)\<lparr>buffer := take (0 * 3) (buffer (Strip mem 3)) @
         concat (replicate (pixelCount (Strip mem 3) - 0)
           [ToUint8 (array_get [10, 20, 30] 0), ToUint8 (array_get [10, 20, 30] 1),
            ToUint8 (array_get [10, 20, 30] 2)])\<rparr>)"
    using inv by (intro on_loop_fill) (simp_all add: array_get_Cons3 out_of_bounds_def colorArray_def)
  then show "buffer (snd (on get_rgb (Strip mem 3) (ColorArray [10, 20, 30]))) =
     [10, 20, 30, 10, 20, 30, 10, 20, 30]"
    by (simp add: on_def array_get_Cons3 ToUint8_def Strip_def numeral_3_eq_3)
qed

theorem on_fills_witness:
  "strip_inv \<lparr>buffer = [1, 2, 3, 4, 5, 6], pixelCount = 2\<rparr> \<and>
   colorArray example_rgb (ColorString ''blue'') = Some [0, 0, 255, 1] \<and>
   on example_rgb \<lparr>buffer = [1, 2, 3, 4, 5, 6], pixelCount = 2\<rparr> (ColorString ''blue'') =
     (Inr (), \<lparr>buffer = [0, 0, 255, 0, 0, 255], pixelCount = 2\<rparr>)"
  using on_fills [of "\<lparr>buffer = [1, 2, 3, 4, 5, 6], pixelCount = 2\<rparr>" example_rgb
      "ColorString ''blue''" 0 0 255 "[1]"]
  by (simp add: strip_inv_def colorArray_def example_rgb_def numeral_2_eq_2)

text \<open>
  C6. When the string passed to \<open>on\<close> does not resolve, the call leaves the strip exactly
  as it was: the first \<open>setPixelColor\<close> throws before any byte is written (and on a strip
  of no pixels the loop body never runs).
\<close>

theorem on_unresolvable_atomic:
  "get_rgb str = None \<Longrightarrow>
   snd (on get_rgb s (ColorString str)) = s \<and>
   fst (on get_rgb s (ColorString str)) =
     (if pixelCount s = 0 then Inr () else Inl UnresolvableColor)"
  unfolding on_def by (subst (1 2) on_loop.simps) (simp add: setPixelColor_def colorArray_def)

theorem on_unresolvable_atomic_witness:
  "example_rgb ''not-a-color'' = None \<and>
   on example_rgb \<lparr>buffer = [1, 2, 3, 4, 5, 6], pixelCount = 2\<rparr> (ColorString ''not-a-color'') =
     (Inl UnresolvableColor, \<lparr>buffer = [1, 2, 3, 4, 5, 6], pixelCount = 2\<rparr>)"
  using on_unresolvable_atomic
    [of example_rgb "''not-a-color''" "\<lparr>buffer = [1, 2, 3, 4, 5, 6], pixelCount = 2\<rparr>"]
  by (simp add: example_rgb_def prod_eq_iff)

text \<open>
  C7. On a strip whose buffer has \<open>pixelCount * 3\<close> bytes, \<open>off()\<close> returns and leaves every
  byte 0; the strip it leaves is the one left by \<open>setPixelColor(i, [0,0,0])\<close> for
  \<open>i = 0, ..., pixelCount - 1\<close> in this order; and a second \<open>off()\<close> changes nothing.
\<close>

theorem off_all_black:
  assumes "strip_inv s"
  shows "off get_rgb s = (Inr (), s\<lparr>buffer := replicate (pixelCount s * 3) 0\<rparr>) \<and>
    snd (off get_rgb s) = off_spec get_rgb s \<and>
    off get_rgb (snd (off get_rgb s)) = off get_rgb s"
proof -
  have ca: "colorArray get_rgb (ColorArray [0, 0, 0]) = Some [0, 0, 0]"
    by (simp add: colorArray_def)
  have ok: "\<not> out_of_bounds (array_get [0, 0, 0] 0)" "\<not> out_of_bounds (array_get [0, 0, 0] 1)"
    "\<not> out_of_bounds (array_get [0, 0, 0] 2)"
    by (simp_all add: array_get_Cons3 out_of_bounds_def)
  have fill: "off get_rgb t = (Inr (), t\<lparr>buffer := replicate (pixelCount t * 3) 0\<rparr>)"
    if "strip_inv t" for t
    using on_loop_fill [OF ok ca that, of 0]
    by (simp add: off_def off_loop_on_loop array_get_Cons3 ToUint8_def concat_replicate_zero3)
  have "snd (off get_rgb s) = off_spec get_rgb s"
    using on_loop_foldl [OF ok ca assms, of 0] by (simp add: off_def off_loop_on_loop off_spec_def)
  moreover have "strip_inv (s\<lparr>buffer := replicate (pixelCount s * 3) 0\<rparr>)"
    by (simp add: strip_inv_def)
  then have "off get_rgb (snd (off get_rgb s)) = off get_rgb s"
    using fill [of "s\<lparr>buffer := replicate (pixelCount s * 3) 0\<rparr>"] fill [OF assms] by simp
  ultimately show ?thesis using fill [OF assms] by simp
qed

theorem off_all_black_witness:
  "strip_inv \<lparr>buffer = [1, 2, 3, 4, 5, 6], pixelCount = 2\<rparr> \<and>
   off example_rgb \<lparr>buffer = [1, 2, 3, 4, 5, 6], pixelCount = 2\<rparr> =
     (Inr (), \<lparr>buffer = [0, 0, 0, 0, 0, 0], pixelCount = 2\<rparr>) \<and>
   off_spec example_rgb \<lparr>buffer = [1, 2, 3, 4, 5, 6], pixelCount = 2\<rparr> =
     \<lparr>buffer = [0, 0, 0, 0, 0, 0], pixelCount = 2\<rparr>"
proof -
  have inv: "strip_inv \<lparr>buffer = [1, 2, 3, 4, 5, 6], pixelCount = 2\<rparr>"
    by (simp add: strip_inv_def)
  have six: "replicate 6 (0 :: byte) = [0, 0, 0, 0, 0, 0]"
    by (simp add: eval_nat_numeral)
  from off_all_black [OF inv, of example_rgb] six inv show ?thesis
    by auto
qed

end
